theory Spec2Isabelle
  imports Main
begin

section \<open>The game session of game-session.js\<close>

text \<open>
  The class \<^verbatim>\<open>GameSession\<close> keeps a JavaScript \<^verbatim>\<open>Map\<close> from player ids to
  \<^verbatim>\<open>{role, submission}\<close> objects and a \<^verbatim>\<open>gameState\<close> string with the values
  \<^verbatim>\<open>"waiting" | "playing" | "revealed"\<close> (the comment of the constructor). The roles are the
  strings \<^verbatim>\<open>"question"\<close> and \<^verbatim>\<open>"answer"\<close>. A submission is \<^verbatim>\<open>null\<close> (\<open>None\<close>) or the
  text of the inbound message (\<open>Some content\<close>).
\<close>

datatype role = Question | Answer

datatype gameState = Waiting | Playing | Revealed

record player =
  role :: role
  submission :: "string option"

text \<open>
  The attachment serialised on a server socket: \<^verbatim>\<open>{playerId, role, submission}\<close>. The id is
  the value of \<^verbatim>\<open>crypto.randomUUID()\<close>, modelled as a counter of the session: every call
  returns an id that no earlier call returned. One socket is accepted per admitted player
  and it carries that player's id, so a socket is named by the id of its attachment.
\<close>

record attachment = player +
  playerId :: nat

text \<open>The outbound messages, as the code serialises them.\<close>

datatype msg =
    Joined nat role nat gameState
  | State nat gameState
  | Submitted
  | Reveal "string option" "string option"

text \<open>
  The state of one session: the \<^verbatim>\<open>players\<close> map in insertion order (the order in which a
  JavaScript \<^verbatim>\<open>Map\<close> iterates), \<^verbatim>\<open>gameState\<close>, the sockets that \<^verbatim>\<open>ctx.getWebSockets()\<close>
  returns (accepted and not yet closed, each with its attachment), the log of every
  \<^verbatim>\<open>ws.send\<close> call (the receiving socket and the message), and the id counter.
\<close>

record GameSession =
  players :: "(nat \<times> player) list"
  gameState :: gameState
  sockets :: "attachment list"
  outbox :: "(nat \<times> msg) list"
  nextId :: nat

datatype jserror = TypeError | SyntaxError

text \<open>
  What a handler call ends with: the HTTP status of the response of \<^verbatim>\<open>fetch\<close>, a normal
  return, or an exception thrown after the state changes made so far.
\<close>

datatype outcome = Response nat | Returned | Threw jserror

text \<open>
  An inbound frame: text that \<^verbatim>\<open>JSON.parse\<close> rejects; the JSON text \<^verbatim>\<open>null\<close>, on which
  reading \<^verbatim>\<open>data.type\<close> throws; \<^verbatim>\<open>{type: "submit", content}\<close> with a string content (the
  wire format of the clients); or a message of any other type.

  An event of the session: an HTTP request to \<^verbatim>\<open>fetch\<close>, with or without the header
  \<^verbatim>\<open>Upgrade: websocket\<close>; a frame, a close or an error on a socket; and \<open>Wake\<close>, the
  runtime running the constructor again. The sockets are accepted with
  \<^verbatim>\<open>ctx.acceptWebSocket\<close>, so they stay connected while the object is evicted from
  memory, and the next event starts with a fresh instance.
\<close>

datatype inbound = Malformed | Null | Submit string | Other

datatype event =
    Fetch bool
  | Message nat inbound
  | Close nat
  | Error nat
  | Wake

subsection \<open>The Map operations\<close>

text \<open>\<^verbatim>\<open>Map.prototype.set\<close>: an existing key keeps its position, a new key goes last.\<close>

fun map_set :: "'k \<Rightarrow> 'v \<Rightarrow> ('k \<times> 'v) list \<Rightarrow> ('k \<times> 'v) list" where
  "map_set k v [] = [(k, v)]"
| "map_set k v (e # m) = (if fst e = k then (k, v) # m else e # map_set k v m)"

definition map_delete :: "'k \<Rightarrow> ('k \<times> 'v) list \<Rightarrow> ('k \<times> 'v) list" where
  "map_delete k m = filter (\<lambda>e. fst e \<noteq> k) m"

text \<open>JavaScript truthiness of a submission: \<^verbatim>\<open>null\<close> and the empty string are falsy.\<close>

fun truthy :: "string option \<Rightarrow> bool" where
  "truthy None = False"
| "truthy (Some c) = (c \<noteq> [])"

subsection \<open>Sending\<close>

definition send :: "nat \<Rightarrow> msg \<Rightarrow> GameSession \<Rightarrow> GameSession" where
  "send ws m s = s\<lparr>outbox := outbox s @ [(ws, m)]\<rparr>"

text \<open>
  \<^verbatim>\<open>broadcast\<close> calls \<^verbatim>\<open>send\<close> on every socket of \<^verbatim>\<open>ctx.getWebSockets()\<close>; a failing send is
  caught and the loop goes on, so the log holds one entry per socket. The runtime lists
  the socket accepted last first; the order inside one broadcast is the runtime's, not the
  code's, and no property below depends on it.
\<close>

definition broadcast :: "msg \<Rightarrow> GameSession \<Rightarrow> GameSession" where
  "broadcast m s = s\<lparr>outbox := outbox s @ map (\<lambda>ws. (playerId ws, m)) (rev (sockets s))\<rparr>"

subsection \<open>The handlers\<close>

text \<open>
  The constructor sets \<^verbatim>\<open>players\<close> to a new empty map and \<^verbatim>\<open>gameState\<close> to
  \<^verbatim>\<open>"waiting"\<close>. It touches nothing else: the accepted sockets and their attachments belong
  to the runtime. The initial state is the constructed state with no socket.
\<close>

definition constructor :: "GameSession \<Rightarrow> GameSession" where
  "constructor s = s\<lparr>players := [], gameState := Waiting\<rparr>"

definition init_state :: GameSession where
  "init_state = \<lparr>players = [], gameState = Waiting, sockets = [], outbox = [], nextId = 0\<rparr>"

text \<open>
  \<^verbatim>\<open>fetch\<close>: the argument says whether the request carries \<^verbatim>\<open>Upgrade: websocket\<close>.
\<close>

definition fetch :: "bool \<Rightarrow> GameSession \<Rightarrow> outcome \<times> GameSession" where
  "fetch upgrade s =
    (if \<not> upgrade then (Response 400, s)
     else if length (players s) \<ge> 2 then (Response 403, s)
     else
       let pid = nextId s;
           r = (if length (players s) = 0 then Question else Answer);
           s1 = s\<lparr>nextId := Suc pid,
                  sockets := sockets s @ [\<lparr>role = r, submission = None, playerId = pid\<rparr>],
                  players := map_set pid \<lparr>role = r, submission = None\<rparr> (players s)\<rparr>;
           s2 = (if length (players s1) = 2 then s1\<lparr>gameState := Playing\<rparr> else s1);
           s3 = send pid (Joined pid r (length (players s2)) (gameState s2)) s2
       in (Response 101, broadcast (State (length (players s3)) (gameState s3)) s3))"

text \<open>
  \<^verbatim>\<open>handleSubmit(ws, attachment, content)\<close>: the socket is the one that carries the
  attachment. The object literal of the reveal reads \<^verbatim>\<open>question.submission\<close> and
  \<^verbatim>\<open>answer.submission\<close>; when \<^verbatim>\<open>find\<close> returned \<^verbatim>\<open>undefined\<close> that read throws a
  \<^verbatim>\<open>TypeError\<close>, after \<^verbatim>\<open>gameState\<close> was set and before anything is broadcast.
\<close>

definition handleSubmit :: "attachment \<Rightarrow> string \<Rightarrow> GameSession \<Rightarrow> outcome \<times> GameSession" where
  "handleSubmit att content s =
    (if gameState s \<noteq> Playing then (Returned, s)
     else
       let att' = att\<lparr>submission := Some content\<rparr>;
           s1 = s\<lparr>sockets := map (\<lambda>ws. if playerId ws = playerId att then att' else ws) (sockets s),
                  players := map_set (playerId att)
                     \<lparr>role = role att, submission = Some content\<rparr> (players s)\<rparr>;
           s2 = send (playerId att) Submitted s1;
           allPlayers = map snd (players s2)
       in if length allPlayers = 2 \<and> list_all (\<lambda>p. truthy (submission p)) allPlayers then
            let s3 = s2\<lparr>gameState := Revealed\<rparr> in
            (case find (\<lambda>p. role p = Question) allPlayers of
               None \<Rightarrow> (Threw TypeError, s3)
             | Some question \<Rightarrow>
                (case find (\<lambda>p. role p = Answer) allPlayers of
                   None \<Rightarrow> (Threw TypeError, s3)
                 | Some answer \<Rightarrow>
                     (Returned, broadcast (Reveal (submission question) (submission answer)) s3)))
          else (Returned, s2))"

definition webSocketMessage :: "attachment \<Rightarrow> inbound \<Rightarrow> GameSession \<Rightarrow> outcome \<times> GameSession" where
  "webSocketMessage ws message s =
    (case message of
       Malformed \<Rightarrow> (Threw SyntaxError, s)
     | Null \<Rightarrow> (Threw TypeError, s)
     | Submit content \<Rightarrow> handleSubmit ws content s
     | Other \<Rightarrow> (Returned, s))"

text \<open>\<^verbatim>\<open>ws.close()\<close>: the socket leaves the list of \<^verbatim>\<open>ctx.getWebSockets()\<close>.\<close>

definition close :: "nat \<Rightarrow> GameSession \<Rightarrow> GameSession" where
  "close ws s = s\<lparr>sockets := filter (\<lambda>a. playerId a \<noteq> ws) (sockets s)\<rparr>"

text \<open>
  \<^verbatim>\<open>webSocketClose\<close> and \<^verbatim>\<open>webSocketError\<close>. Every accepted socket has an attachment
  (\<^verbatim>\<open>fetch\<close> serialises it right after accepting), so the guard \<^verbatim>\<open>if (attachment)\<close> holds.
  Both branches of the conditional of \<^verbatim>\<open>webSocketClose\<close> are \<^verbatim>\<open>"waiting"\<close> in the source.
  The state message of \<^verbatim>\<open>webSocketClose\<close> is broadcast before \<^verbatim>\<open>ws.close()\<close>, so the log
  holds a send to the closing socket as well.
\<close>

definition webSocketClose :: "attachment \<Rightarrow> GameSession \<Rightarrow> outcome \<times> GameSession" where
  "webSocketClose ws s =
    (let s1 = s\<lparr>players := map_delete (playerId ws) (players s)\<rparr>;
         s2 = (if gameState s1 \<noteq> Revealed
               then s1\<lparr>gameState := (if length (players s1) > 0 then Waiting else Waiting)\<rparr>
               else s1);
         s3 = broadcast (State (length (players s2)) (gameState s2)) s2
     in (Returned, close (playerId ws) s3))"

definition webSocketError :: "attachment \<Rightarrow> GameSession \<Rightarrow> outcome \<times> GameSession" where
  "webSocketError ws s =
    (let s1 = s\<lparr>players := map_delete (playerId ws) (players s)\<rparr>
     in (Returned, close (playerId ws) s1))"

subsection \<open>Runs of a session\<close>

text \<open>
  The runtime calls one handler at a time (a Durable Object is single-threaded), and it
  delivers a message, a close or an error only for a socket that is accepted and not yet
  closed: an event that names any other socket changes nothing. A constructor re-run can
  come between any two events; the handlers then find the attachments on the sockets and
  an empty \<^verbatim>\<open>players\<close> map.
\<close>

definition socket_of :: "GameSession \<Rightarrow> nat \<Rightarrow> attachment option" where
  "socket_of s ws = find (\<lambda>a. playerId a = ws) (sockets s)"

fun step :: "GameSession \<Rightarrow> event \<Rightarrow> outcome \<times> GameSession" where
  "step s (Fetch upgrade) = fetch upgrade s"
| "step s (Message ws m) =
     (case socket_of s ws of None \<Rightarrow> (Returned, s) | Some a \<Rightarrow> webSocketMessage a m s)"
| "step s (Close ws) =
     (case socket_of s ws of None \<Rightarrow> (Returned, s) | Some a \<Rightarrow> webSocketClose a s)"
| "step s (Error ws) =
     (case socket_of s ws of None \<Rightarrow> (Returned, s) | Some a \<Rightarrow> webSocketError a s)"
| "step s Wake = (Returned, constructor s)"

fun run :: "GameSession \<Rightarrow> event list \<Rightarrow> GameSession" where
  "run s [] = s"
| "run s (e # es) = run (snd (step s e)) es"

text \<open>The messages that one event adds to the log.\<close>

definition emitted :: "GameSession \<Rightarrow> event \<Rightarrow> (nat \<times> msg) list" where
  "emitted s e = drop (length (outbox s)) (outbox (snd (step s e)))"

subsection \<open>The invariant of the reachable states\<close>

text \<open>
  The entry of the \<^verbatim>\<open>players\<close> map that belongs to a socket. In every state that a run
  without \<open>Wake\<close> reaches, the map is the list of the entries of the open sockets, in the
  same order; no two sockets share an id; the ids in use were handed out before; at most
  two sockets are open; at most one of them has the role \<open>Question\<close>; and the id 0, the
  first one handed out, has the role \<open>Question\<close>.
\<close>

definition entry :: "attachment \<Rightarrow> nat \<times> player" where
  "entry a = (playerId a, \<lparr>role = role a, submission = submission a\<rparr>)"

definition session_inv :: "GameSession \<Rightarrow> bool" where
  "session_inv s \<longleftrightarrow>
     players s = map entry (sockets s) \<and>
     distinct (map playerId (sockets s)) \<and>
     (\<forall>a \<in> set (sockets s). playerId a < nextId s) \<and>
     length (sockets s) \<le> 2 \<and>
     length (filter (\<lambda>a. role a = Question) (sockets s)) \<le> 1 \<and>
     (\<forall>a \<in> set (sockets s). playerId a = 0 \<longrightarrow> role a = Question)"

text \<open>
  In every state that any run reaches, also one with \<open>Wake\<close>: no two sockets share an id,
  the ids in use were handed out before, no key occurs twice in the map, and every entry
  of the map is the entry of an open socket.
\<close>

definition attached_inv :: "GameSession \<Rightarrow> bool" where
  "attached_inv s \<longleftrightarrow>
     distinct (map playerId (sockets s)) \<and>
     (\<forall>a \<in> set (sockets s). playerId a < nextId s) \<and>
     distinct (map fst (players s)) \<and>
     set (players s) \<subseteq> entry ` set (sockets s)"

text \<open>What \<^verbatim>\<open>handleSubmit\<close> writes into the attachment of the submitting socket.\<close>

definition record_submission :: "nat \<Rightarrow> string \<Rightarrow> attachment \<Rightarrow> attachment" where
  "record_submission k c ws = (if playerId ws = k then ws\<lparr>submission := Some c\<rparr> else ws)"

subsection \<open>Reading the log\<close>

text \<open>The reveal messages of a log, each with the socket it was sent to.\<close>

fun is_reveal :: "msg \<Rightarrow> bool" where
  "is_reveal (Reveal p r) = True"
| "is_reveal m = False"

definition reveals :: "(nat \<times> msg) list \<Rightarrow> (nat \<times> msg) list" where
  "reveals out = filter (\<lambda>e. is_reveal (snd e)) out"

section \<open>Properties\<close>

lemmas session_defs =
  init_state_def fetch_def handleSubmit_def webSocketMessage_def webSocketClose_def
  webSocketError_def close_def send_def broadcast_def socket_of_def map_delete_def
  constructor_def emitted_def Let_def

lemma run_append: "run s (xs @ ys) = run (run s xs) ys"
  by (induction xs arbitrary: s) simp_all

lemma fst_entry [simp]: "fst (entry a) = playerId a"
  by (simp add: entry_def)

lemma snd_entry [simp]: "role (snd (entry a)) = role a" "submission (snd (entry a)) = submission a"
  by (simp_all add: entry_def)

lemma map_set_fresh: "k \<notin> fst ` set m \<Longrightarrow> map_set k v m = m @ [(k, v)]"
  by (induction m) auto

lemma map_set_entry:
  "distinct (map playerId xs) \<Longrightarrow> k \<in> playerId ` set xs \<Longrightarrow> entry b = (k, v) \<Longrightarrow>
   map_set k v (map entry xs) = map entry (map (\<lambda>ws. if playerId ws = k then b else ws) xs)"
proof (induction xs)
  case Nil
  then show ?case by simp
next
  case (Cons a xs)
  show ?case
  proof (cases "playerId a = k")
    case True
    with Cons.prems have "k \<notin> playerId ` set xs" by auto
    then have "map (\<lambda>ws. if playerId ws = k then b else ws) xs = xs"
      by (induction xs) auto
    with True Cons.prems show ?thesis by simp
  next
    case False
    with Cons show ?thesis by auto
  qed
qed

lemma map_delete_entry:
  "map_delete k (map entry xs) = map entry (filter (\<lambda>a. playerId a \<noteq> k) xs)"
  by (induction xs) (simp_all add: map_delete_def)

lemma socket_of_Some: "socket_of s ws = Some a \<Longrightarrow> a \<in> set (sockets s) \<and> playerId a = ws"
  unfolding socket_of_def by (auto simp: find_Some_iff)

lemma inv_init: "session_inv init_state"
  by (simp add: session_inv_def init_state_def)

lemma inv_fetch:
  assumes inv: "session_inv s"
  shows "session_inv (snd (fetch u s))"
proof (cases "u \<and> length (players s) < 2")
  case False
  with inv show ?thesis by (auto simp: fetch_def)
next
  case True
  from inv have fresh: "nextId s \<notin> fst ` set (players s)"
    by (auto simp: session_inv_def)
  have len: "length (sockets s) = length (players s)"
    using inv by (simp add: session_inv_def)
  show ?thesis
  proof (cases "sockets s")
    case Nil
    with True inv fresh show ?thesis
      by (simp add: session_inv_def fetch_def Let_def send_def broadcast_def map_set_fresh entry_def)
  next
    case (Cons a xs)
    with True len have xs: "xs = []" by (cases xs) auto
    with Cons True inv fresh show ?thesis
      by (auto simp: session_inv_def fetch_def Let_def send_def broadcast_def map_set_fresh entry_def)
  qed
qed


lemma length_filter_filter_le: "length (filter P (filter Q xs)) \<le> length (filter P xs)"
  by (induction xs) (auto simp: le_SucI)

lemma inv_close_sockets:
  assumes inv: "session_inv s"
  shows "session_inv (s\<lparr>players := map_delete k (players s),
            sockets := filter (\<lambda>a. playerId a \<noteq> k) (sockets s)\<rparr>)"
proof -
  let ?xs = "filter (\<lambda>a. playerId a \<noteq> k) (sockets s)"
  have q: "length (filter (\<lambda>a. role a = Question) ?xs) \<le> 1"
    using inv length_filter_filter_le [of "\<lambda>a. role a = Question" _ "sockets s"]
    unfolding session_inv_def by (meson le_trans)
  have l: "length ?xs \<le> 2"
    using inv length_filter_le [of "\<lambda>a. playerId a \<noteq> k" "sockets s"]
    unfolding session_inv_def by linarith
  have p: "map_delete k (players s) = map entry ?xs"
    using inv by (simp add: session_inv_def map_delete_entry)
  have d: "distinct (map playerId ?xs)"
    using inv by (simp add: session_inv_def distinct_map_filter)
  have r: "(\<forall>a \<in> set ?xs. playerId a < nextId s) \<and>
           (\<forall>a \<in> set ?xs. playerId a = 0 \<longrightarrow> role a = Question)"
    using inv by (simp add: session_inv_def)
  show ?thesis
    unfolding session_inv_def using q l p d r by simp
qed

lemma inv_webSocketClose: "session_inv s \<Longrightarrow> session_inv (snd (webSocketClose a s))"
  using inv_close_sockets [of s "playerId a"]
  by (auto simp: webSocketClose_def Let_def close_def broadcast_def session_inv_def)

lemma inv_webSocketError: "session_inv s \<Longrightarrow> session_inv (snd (webSocketError a s))"
  using inv_close_sockets [of s "playerId a"]
  by (auto simp: webSocketError_def Let_def close_def session_inv_def)


lemma handleSubmit_not_playing: "gameState s \<noteq> Playing \<Longrightarrow> handleSubmit a c s = (Returned, s)"
  by (simp add: handleSubmit_def)

lemma handleSubmit_players:
  "gameState s = Playing \<Longrightarrow>
   players (snd (handleSubmit a c s)) =
     map_set (playerId a) \<lparr>role = role a, submission = Some c\<rparr> (players s)"
  by (simp add: handleSubmit_def Let_def send_def broadcast_def split: option.splits)

lemma handleSubmit_sockets:
  "gameState s = Playing \<Longrightarrow>
   sockets (snd (handleSubmit a c s)) =
     map (\<lambda>ws. if playerId ws = playerId a then a\<lparr>submission := Some c\<rparr> else ws) (sockets s)"
  by (simp add: handleSubmit_def Let_def send_def broadcast_def split: option.splits)

lemma handleSubmit_nextId: "nextId (snd (handleSubmit a c s)) = nextId s"
  by (simp add: handleSubmit_def Let_def send_def broadcast_def split: option.splits)

lemma record_submission_simps [simp]:
  "playerId (record_submission k c ws) = playerId ws"
  "role (record_submission k c ws) = role ws"
  by (simp_all add: record_submission_def)

lemma serialize_eq:
  assumes "distinct (map playerId xs)" "a \<in> set xs"
  shows "map (\<lambda>ws. if playerId ws = playerId a then a\<lparr>submission := Some c\<rparr> else ws) xs =
         map (record_submission (playerId a) c) xs"
proof (rule map_cong [OF refl])
  fix ws assume "ws \<in> set xs"
  with assms have "playerId ws = playerId a \<Longrightarrow> ws = a"
    by (meson distinct_map inj_onD)
  then show "(if playerId ws = playerId a then a\<lparr>submission := Some c\<rparr> else ws) =
             record_submission (playerId a) c ws"
    by (auto simp: record_submission_def)
qed

lemma inv_handleSubmit:
  assumes inv: "session_inv s" and a: "a \<in> set (sockets s)"
  shows "session_inv (snd (handleSubmit a c s))"
proof (cases "gameState s = Playing")
  case False
  with inv show ?thesis by (simp add: handleSubmit_not_playing)
next
  case True
  let ?s' = "snd (handleSubmit a c s)"
  let ?g = "record_submission (playerId a) c"
  from inv have d: "distinct (map playerId (sockets s))" by (simp add: session_inv_def)
  have so: "sockets ?s' = map ?g (sockets s)"
    using True d a by (simp add: handleSubmit_sockets serialize_eq)
  have "entry (a\<lparr>submission := Some c\<rparr>) = (playerId a, \<lparr>role = role a, submission = Some c\<rparr>)"
    by (simp add: entry_def)
  then have pl: "players ?s' = map entry (sockets ?s')"
    using True inv d a map_set_entry [of "sockets s" "playerId a" "a\<lparr>submission := Some c\<rparr>"]
    by (simp add: handleSubmit_players handleSubmit_sockets session_inv_def)
  have ids: "map playerId (map ?g (sockets s)) = map playerId (sockets s)"
    by (simp add: o_def)
  have q: "filter (\<lambda>a. role a = Question) (map ?g (sockets s)) =
           map ?g (filter (\<lambda>a. role a = Question) (sockets s))"
    by (simp add: filter_map o_def)
  show ?thesis
    unfolding session_inv_def using inv pl
    by (simp add: handleSubmit_nextId so q ids session_inv_def del: map_map)
qed

lemma inv_step:
  assumes "session_inv s" "e \<noteq> Wake"
  shows "session_inv (snd (step s e))"
proof (cases e)
  case (Message ws m)
  with assms(1) show ?thesis
    by (cases m) (auto simp: webSocketMessage_def inv_handleSubmit
          dest: socket_of_Some split: option.splits)
qed (use assms in \<open>auto simp: inv_fetch inv_webSocketClose inv_webSocketError split: option.splits\<close>)

lemma inv_run: "session_inv s \<Longrightarrow> Wake \<notin> set t \<Longrightarrow> session_inv (run s t)"
  by (induction t arbitrary: s) (auto simp: inv_step)

lemma inv_reachable: "Wake \<notin> set t \<Longrightarrow> session_inv (run init_state t)"
  by (simp add: inv_run inv_init)

subsection \<open>The invariant of all runs\<close>


lemma attached_init: "attached_inv init_state"
  by (simp add: attached_inv_def init_state_def)

lemma fresh_key:
  assumes "attached_inv s"
  shows "nextId s \<notin> fst ` set (players s)"
proof
  assume "nextId s \<in> fst ` set (players s)"
  then obtain x where x: "x \<in> set (players s)" "fst x = nextId s" by auto
  with assms obtain b where "b \<in> set (sockets s)" "x = entry b"
    by (auto simp: attached_inv_def)
  with x assms show False by (auto simp: attached_inv_def)
qed

lemma set_map_set: "set (map_set k v m) \<subseteq> insert (k, v) (set m)"
  by (induction m) auto

lemma map_fst_map_set:
  "map fst (map_set k v m) = (if k \<in> fst ` set m then map fst m else map fst m @ [k])"
  by (induction m) auto

lemma distinct_map_set: "distinct (map fst m) \<Longrightarrow> distinct (map fst (map_set k v m))"
  by (simp add: map_fst_map_set)

lemma map_set_member: "(k, v) \<in> set (map_set k v m)"
  by (induction m) auto

lemma attached_fetch:
  assumes inv: "attached_inv s"
  shows "attached_inv (snd (fetch u s))"
proof (cases "u \<and> length (players s) < 2")
  case False
  with inv show ?thesis by (auto simp: fetch_def)
next
  case True
  let ?r = "if length (players s) = 0 then Question else Answer"
  let ?a = "\<lparr>role = ?r, submission = None, playerId = nextId s\<rparr>"
  from fresh_key [OF inv] True
  have st: "sockets (snd (fetch u s)) = sockets s @ [?a]"
       "players (snd (fetch u s)) = players s @ [entry ?a]"
       "nextId (snd (fetch u s)) = Suc (nextId s)"
    by (simp_all add: fetch_def Let_def send_def broadcast_def map_set_fresh entry_def)
  from inv have "nextId s \<notin> playerId ` set (sockets s)"
    by (auto simp: attached_inv_def)
  with inv fresh_key [OF inv] show ?thesis
    unfolding attached_inv_def st by (auto simp: less_Suc_eq)
qed

lemma attached_delete:
  assumes inv: "attached_inv s"
  shows "attached_inv (s\<lparr>players := map_delete k (players s),
            sockets := filter (\<lambda>a. playerId a \<noteq> k) (sockets s)\<rparr>)"
proof -
  have "set (map_delete k (players s)) \<subseteq> entry ` set (filter (\<lambda>a. playerId a \<noteq> k) (sockets s))"
  proof
    fix x assume "x \<in> set (map_delete k (players s))"
    then have x: "x \<in> set (players s)" "fst x \<noteq> k" by (auto simp: map_delete_def)
    with inv obtain b where "b \<in> set (sockets s)" "x = entry b"
      by (auto simp: attached_inv_def)
    with x show "x \<in> entry ` set (filter (\<lambda>a. playerId a \<noteq> k) (sockets s))" by auto
  qed
  moreover have "distinct (map fst (map_delete k (players s)))"
    using inv by (simp add: attached_inv_def map_delete_def distinct_map_filter)
  moreover have "distinct (map playerId (filter (\<lambda>a. playerId a \<noteq> k) (sockets s)))"
    using inv by (simp add: attached_inv_def distinct_map_filter)
  ultimately show ?thesis
    using inv by (simp add: attached_inv_def)
qed

lemma attached_webSocketClose: "attached_inv s \<Longrightarrow> attached_inv (snd (webSocketClose a s))"
  using attached_delete [of s "playerId a"]
  by (auto simp: webSocketClose_def Let_def close_def broadcast_def attached_inv_def)

lemma attached_webSocketError: "attached_inv s \<Longrightarrow> attached_inv (snd (webSocketError a s))"
  using attached_delete [of s "playerId a"]
  by (auto simp: webSocketError_def Let_def close_def attached_inv_def)

lemma attached_handleSubmit:
  assumes inv: "attached_inv s" and a: "a \<in> set (sockets s)"
  shows "attached_inv (snd (handleSubmit a c s))"
proof (cases "gameState s = Playing")
  case False
  with inv show ?thesis by (simp add: handleSubmit_not_playing)
next
  case True
  let ?s' = "snd (handleSubmit a c s)"
  let ?g = "record_submission (playerId a) c"
  let ?v = "\<lparr>role = role a, submission = Some c\<rparr>"
  from inv have d: "distinct (map playerId (sockets s))" by (simp add: attached_inv_def)
  have so: "sockets ?s' = map ?g (sockets s)"
    using True d a by (simp add: handleSubmit_sockets serialize_eq)
  have pl: "players ?s' = map_set (playerId a) ?v (players s)"
    using True by (rule handleSubmit_players)
  have ids: "map playerId (map ?g (sockets s)) = map playerId (sockets s)"
    by (simp add: o_def)
  have dk: "distinct (map fst (players ?s'))"
    using inv unfolding pl by (simp add: attached_inv_def distinct_map_set)
  have ea: "entry (?g a) = (playerId a, ?v)"
    by (simp add: entry_def record_submission_def)
  have "set (players ?s') \<subseteq> entry ` set (sockets ?s')"
  proof
    fix x assume x: "x \<in> set (players ?s')"
    show "x \<in> entry ` set (sockets ?s')"
    proof (cases "fst x = playerId a")
      case True
      have "(playerId a, ?v) \<in> set (players ?s')" unfolding pl by (rule map_set_member)
      with x True dk have "x = (playerId a, ?v)"
        by (metis eq_key_imp_eq_value prod.collapse)
      with ea a so show ?thesis by force
    next
      case False
      with x set_map_set [of "playerId a" ?v "players s"] have "x \<in> set (players s)"
        unfolding pl by auto
      with inv obtain b where b: "b \<in> set (sockets s)" "x = entry b"
        by (auto simp: attached_inv_def)
      with False have "?g b = b" by (simp add: record_submission_def)
      with b so show ?thesis by force
    qed
  qed
  with dk inv show ?thesis
    unfolding attached_inv_def
    by (simp add: handleSubmit_nextId so ids attached_inv_def del: map_map)
qed

lemma attached_step: "attached_inv s \<Longrightarrow> attached_inv (snd (step s e))"
proof (cases e)
  case (Message ws m)
  assume "attached_inv s"
  with Message show ?thesis
    by (cases m) (auto simp: webSocketMessage_def attached_handleSubmit
          dest: socket_of_Some split: option.splits)
next
  case Wake
  assume "attached_inv s"
  with Wake show ?thesis by (simp add: attached_inv_def constructor_def)
qed (auto simp: attached_fetch attached_webSocketClose attached_webSocketError split: option.splits)

lemma attached_run: "attached_inv s \<Longrightarrow> attached_inv (run s t)"
  by (induction t arbitrary: s) (simp_all add: attached_step)

lemma attached_reachable: "attached_inv (run init_state t)"
  by (simp add: attached_run attached_init)

subsection \<open>Capacity\<close>

lemma fetch_full: "2 \<le> length (players s) \<Longrightarrow> step s (Fetch True) = (Response 403, s)"
  by (simp add: fetch_def)

lemma capacity_without_wake: "Wake \<notin> set t \<Longrightarrow> length (players (run init_state t)) \<le> 2"
  using inv_reachable [of t] by (simp add: session_inv_def)

text \<open>
  Claim C6 asks that the participant set never holds more than two participants and that
  an admission to a full session is refused. \<^verbatim>\<open>fetch\<close> refuses an upgrade request with
  status 403 while the \<^verbatim>\<open>players\<close> map holds two entries, and leaves the state as it is.
  But the map lives in a field that the constructor resets, while the accepted sockets
  stay open: after two admissions and a constructor re-run the map is empty with two
  sockets open, a third and a fourth upgrade request are accepted with status 101, and a
  submit from the first socket then puts a third entry into the map.
\<close>

theorem capacity_lost_on_wake:
  "step (run init_state [Fetch True, Fetch True]) (Fetch True) =
     (Response 403, run init_state [Fetch True, Fetch True]) \<and>
   length (sockets (run init_state [Fetch True, Fetch True, Wake])) = 2 \<and>
   players (run init_state [Fetch True, Fetch True, Wake]) = [] \<and>
   fst (step (run init_state [Fetch True, Fetch True, Wake]) (Fetch True)) = Response 101 \<and>
   fst (step (run init_state [Fetch True, Fetch True, Wake, Fetch True]) (Fetch True)) = Response 101 \<and>
   length (sockets (run init_state [Fetch True, Fetch True, Wake, Fetch True, Fetch True])) = 4 \<and>
   players (run init_state
      [Fetch True, Fetch True, Wake, Fetch True, Fetch True, Message 0 (Submit ''x'')]) =
     [(2, \<lparr>role = Question, submission = None\<rparr>), (3, \<lparr>role = Answer, submission = None\<rparr>),
      (0, \<lparr>role = Question, submission = Some ''x''\<rparr>)]"
  by (simp add: session_defs)

subsection \<open>The reveal pairs the submissions by role\<close>

lemma reveal_not_fetch: "(w, Reveal p r) \<notin> set (emitted s (Fetch u))"
  by (auto simp: emitted_def fetch_def Let_def send_def broadcast_def)

lemma reveal_not_close: "(w, Reveal p r) \<notin> set (emitted s (Close ws))"
  by (auto simp: emitted_def webSocketClose_def Let_def close_def broadcast_def split: option.splits)

lemma reveal_not_error: "(w, Reveal p r) \<notin> set (emitted s (Error ws))"
  by (auto simp: emitted_def webSocketError_def Let_def close_def split: option.splits)

lemma reveal_not_wake: "(w, Reveal p r) \<notin> set (emitted s Wake)"
  by (simp add: emitted_def constructor_def)

lemma reveal_handleSubmit:
  assumes "(w, Reveal p r) \<in> set (drop (length (outbox s)) (outbox (snd (handleSubmit a c s))))"
  shows "gameState s = Playing \<and> gameState (snd (handleSubmit a c s)) = Revealed \<and>
         length (players (snd (handleSubmit a c s))) = 2 \<and>
         list_all (\<lambda>pl. truthy (submission pl)) (map snd (players (snd (handleSubmit a c s)))) \<and>
         (\<exists>q an. find (\<lambda>pl. role pl = Question) (map snd (players (snd (handleSubmit a c s)))) = Some q \<and>
                  find (\<lambda>pl. role pl = Answer) (map snd (players (snd (handleSubmit a c s)))) = Some an \<and>
                  p = submission q \<and> r = submission an)"
proof (cases "gameState s = Playing")
  case False
  with assms show ?thesis by (simp add: handleSubmit_def)
next
  case True
  with assms show ?thesis
    by (auto simp: handleSubmit_def Let_def send_def broadcast_def split: if_splits option.splits)
qed

lemma reveal_emitted:
  assumes "(w, Reveal p r) \<in> set (emitted s e)"
  shows "\<exists>a c. e = Message (playerId a) (Submit c) \<and> socket_of s (playerId a) = Some a \<and>
           snd (step s e) = snd (handleSubmit a c s)"
proof (cases e)
  case (Fetch u)
  with assms show ?thesis by (simp add: reveal_not_fetch)
next
  case (Close ws)
  with assms show ?thesis by (simp add: reveal_not_close)
next
  case (Error ws)
  with assms show ?thesis by (simp add: reveal_not_error)
next
  case Wake
  with assms show ?thesis by (simp add: reveal_not_wake)
next
  case (Message ws m)
  show ?thesis
  proof (cases "socket_of s ws")
    case None
    with Message assms show ?thesis by (simp add: emitted_def)
  next
    case (Some a)
    then have "playerId a = ws" by (simp add: socket_of_Some)
    with Some Message assms show ?thesis
      by (cases m) (auto simp: emitted_def webSocketMessage_def)
  qed
qed

lemma find_two_roles:
  assumes "find (\<lambda>pl. role pl = Question) [x, y] = Some q"
      and "find (\<lambda>pl. role pl = Answer) [x, y] = Some an"
  shows "(x = q \<and> y = an \<or> x = an \<and> y = q) \<and> role q = Question \<and> role an = Answer"
  using assms by (auto split: if_splits)

text \<open>
  Claim C1. Whenever an event makes the session send a reveal message, the event is a
  submit with some content from an open socket, and \<^verbatim>\<open>handleSubmit\<close> has stored that content
  under the id and the role of the socket's attachment in the \<^verbatim>\<open>players\<close> map of the state
  before. The map then holds exactly two participants, one with the role \<open>Question\<close> and
  one with the role \<open>Answer\<close>; the first field of the reveal is the submission of the
  \<open>Question\<close> participant and the second field is the submission of the \<open>Answer\<close>
  participant. So the side of the submitting participant is the content just submitted,
  and the other side is the submission that the participant with the other role had in
  the map before the event. This holds in every state, for either order of the two
  submissions and for both orders of the two entries in the map.
\<close>

theorem reveal_paired_by_role:
  assumes "(w, Reveal p r) \<in> set (emitted s e)"
  shows "\<exists>ws a c.
           e = Message ws (Submit c) \<and> socket_of s ws = Some a \<and>
           players (snd (step s e)) =
             map_set ws \<lparr>role = role a, submission = Some c\<rparr> (players s) \<and>
           (\<exists>kq ka.
              players (snd (step s e)) =
                [(kq, \<lparr>role = Question, submission = p\<rparr>), (ka, \<lparr>role = Answer, submission = r\<rparr>)] \<or>
              players (snd (step s e)) =
                [(ka, \<lparr>role = Answer, submission = r\<rparr>), (kq, \<lparr>role = Question, submission = p\<rparr>)]) \<and>
           (role a = Question \<longrightarrow>
              p = Some c \<and> (\<exists>k. (k, \<lparr>role = Answer, submission = r\<rparr>) \<in> set (players s))) \<and>
           (role a = Answer \<longrightarrow>
              r = Some c \<and> (\<exists>k. (k, \<lparr>role = Question, submission = p\<rparr>) \<in> set (players s)))"
proof -
  from assms obtain a c where e: "e = Message (playerId a) (Submit c)"
    and so: "socket_of s (playerId a) = Some a"
    and st: "snd (step s e) = snd (handleSubmit a c s)"
    using reveal_emitted by blast
  let ?v = "\<lparr>role = role a, submission = Some c\<rparr>"
  let ?pl = "players (snd (handleSubmit a c s))"
  let ?q = "\<lparr>role = Question, submission = p\<rparr>"
  let ?an = "\<lparr>role = Answer, submission = r\<rparr>"
  from assms e st have d: "(w, Reveal p r) \<in> set (drop (length (outbox s)) (outbox (snd (handleSubmit a c s))))"
    by (simp add: emitted_def)
  from reveal_handleSubmit [OF d] obtain q an where
    g: "gameState s = Playing" and
    len: "length ?pl = 2" and
    fq: "find (\<lambda>pl. role pl = Question) (map snd ?pl) = Some q" and
    fa: "find (\<lambda>pl. role pl = Answer) (map snd ?pl) = Some an" and
    pr: "p = submission q" "r = submission an"
    by blast
  from g have rec: "?pl = map_set (playerId a) ?v (players s)"
    by (rule handleSubmit_players)
  from len obtain k1 p1 k2 p2 where pl: "?pl = [(k1, p1), (k2, p2)]"
    by (metis (no_types, opaque_lifting) length_0_conv length_Suc_conv numeral_2_eq_2 surj_pair)
  from fq fa pl have "(p1 = q \<and> p2 = an \<or> p1 = an \<and> p2 = q) \<and> role q = Question \<and> role an = Answer"
    using find_two_roles [of p1 p2 q an] by simp
  moreover have "q = \<lparr>role = role q, submission = submission q\<rparr>" "an = \<lparr>role = role an, submission = submission an\<rparr>"
    by simp_all
  ultimately have two: "?pl = [(k1, ?q), (k2, ?an)] \<or> ?pl = [(k2, ?an), (k1, ?q)] \<or>
      ?pl = [(k1, ?an), (k2, ?q)] \<or> ?pl = [(k2, ?q), (k1, ?an)]"
    using pl pr by metis
  then have pair: "\<exists>kq ka. ?pl = [(kq, ?q), (ka, ?an)] \<or> ?pl = [(ka, ?an), (kq, ?q)]"
    by blast
  from pair have mem: "\<exists>k. (k, ?q) \<in> set ?pl" "\<exists>k. (k, ?an) \<in> set ?pl"
    by (metis list.set_intros(1) list.set_intros(2))+
  have own: "(playerId a, ?v) \<in> set ?pl" unfolding rec by (rule map_set_member)
  have sub: "set ?pl \<subseteq> insert (playerId a, ?v) (set (players s))"
    unfolding rec by (rule set_map_set)
  have side_q: "p = Some c \<and> (\<exists>k. (k, ?an) \<in> set (players s))" if "role a = Question"
  proof -
    from own pair that have "?v = ?q" by auto
    then have "p = Some c" by simp
    moreover from mem(2) obtain k where "(k, ?an) \<in> set ?pl" by blast
    with sub that have "(k, ?an) \<in> set (players s)" by auto
    ultimately show ?thesis by blast
  qed
  have side_a: "r = Some c \<and> (\<exists>k. (k, ?q) \<in> set (players s))" if "role a = Answer"
  proof -
    from own pair that have "?v = ?an" by auto
    then have "r = Some c" by simp
    moreover from mem(1) obtain k where "(k, ?q) \<in> set ?pl" by blast
    with sub that have "(k, ?q) \<in> set (players s)" by auto
    ultimately show ?thesis by blast
  qed
  from e so st rec pair side_q side_a show ?thesis by (metis (no_types, lifting))
qed

theorem reveal_paired_by_role_witness:
  "(0, Reveal (Some ''hello'') (Some ''world'')) \<in> set (emitted (run init_state [Fetch True, Fetch True, Message 0 (Submit ''hello'')]) (Message 1 (Submit ''world''))) \<and>
   players (snd (step (run init_state [Fetch True, Fetch True, Message 0 (Submit ''hello'')]) (Message 1 (Submit ''world'')))) = [(0, \<lparr>role = Question, submission = Some ''hello''\<rparr>), (1, \<lparr>role = Answer, submission = Some ''world''\<rparr>)] \<and>
   (\<exists>k. (k, \<lparr>role = Question, submission = Some ''hello''\<rparr>) \<in> set (players (run init_state [Fetch True, Fetch True, Message 0 (Submit ''hello'')]))) \<and>
   (1, Reveal (Some ''why did the chicken cross the road'') (Some ''to get to the other side''))
     \<in> set (emitted (run init_state [Fetch True, Fetch True, Message 1 (Submit ''to get to the other side'')]) (Message 0 (Submit ''why did the chicken cross the road''))) \<and>
   players (snd (step (run init_state [Fetch True, Fetch True, Message 1 (Submit ''to get to the other side'')]) (Message 0 (Submit ''why did the chicken cross the road'')))) = [(0, \<lparr>role = Question, submission = Some ''why did the chicken cross the road''\<rparr>), (1, \<lparr>role = Answer, submission = Some ''to get to the other side''\<rparr>)] \<and>
   (\<exists>k. (k, \<lparr>role = Answer, submission = Some ''to get to the other side''\<rparr>) \<in> set (players (run init_state [Fetch True, Fetch True, Message 1 (Submit ''to get to the other side'')])))"
proof -
  have 1: "(0, Reveal (Some ''hello'') (Some ''world'')) \<in> set (emitted (run init_state [Fetch True, Fetch True, Message 0 (Submit ''hello'')]) (Message 1 (Submit ''world'')))"
    by (simp add: session_defs)
  have s1: "socket_of (run init_state [Fetch True, Fetch True, Message 0 (Submit ''hello'')]) 1 = Some \<lparr>role = Answer, submission = None, playerId = 1\<rparr>"
    by (simp add: session_defs)
  have p1: "players (snd (step (run init_state [Fetch True, Fetch True, Message 0 (Submit ''hello'')]) (Message 1 (Submit ''world'')))) = [(0, \<lparr>role = Question, submission = Some ''hello''\<rparr>), (1, \<lparr>role = Answer, submission = Some ''world''\<rparr>)]"
    by (simp add: session_defs)
  have 2: "(1, Reveal (Some ''why did the chicken cross the road'') (Some ''to get to the other side''))
     \<in> set (emitted (run init_state [Fetch True, Fetch True, Message 1 (Submit ''to get to the other side'')]) (Message 0 (Submit ''why did the chicken cross the road'')))"
    by (simp add: session_defs)
  have s2: "socket_of (run init_state [Fetch True, Fetch True, Message 1 (Submit ''to get to the other side'')]) 0 = Some \<lparr>role = Question, submission = None, playerId = 0\<rparr>"
    by (simp add: session_defs)
  have p2: "players (snd (step (run init_state [Fetch True, Fetch True, Message 1 (Submit ''to get to the other side'')]) (Message 0 (Submit ''why did the chicken cross the road'')))) = [(0, \<lparr>role = Question, submission = Some ''why did the chicken cross the road''\<rparr>), (1, \<lparr>role = Answer, submission = Some ''to get to the other side''\<rparr>)]"
    by (simp add: session_defs)
  from reveal_paired_by_role [OF 1] s1
  have a: "\<exists>k. (k, \<lparr>role = Question, submission = Some ''hello''\<rparr>) \<in> set (players (run init_state [Fetch True, Fetch True, Message 0 (Submit ''hello'')]))"
    by fastforce
  from reveal_paired_by_role [OF 2] s2
  have b: "\<exists>k. (k, \<lparr>role = Answer, submission = Some ''to get to the other side''\<rparr>) \<in> set (players (run init_state [Fetch True, Fetch True, Message 1 (Submit ''to get to the other side'')]))"
    by fastforce
  from 1 2 p1 p2 a b show ?thesis by blast
qed

subsection \<open>A channel error\<close>

text \<open>
  Claim C10. When the channel of an open socket ends with an error, \<^verbatim>\<open>webSocketError\<close>
  deletes the participant from the \<^verbatim>\<open>players\<close> map and does nothing else: \<^verbatim>\<open>gameState\<close>
  keeps its value and no message is sent to anyone. So the session can be in the phase
  \<open>Playing\<close> with one participant only, as it is after two admissions and an error on the
  first socket.
\<close>

theorem error_keeps_phase:
  "(socket_of s ws = Some a \<longrightarrow>
      fst (step s (Error ws)) = Returned \<and>
      players (snd (step s (Error ws))) = map_delete ws (players s) \<and>
      ws \<notin> fst ` set (players (snd (step s (Error ws)))) \<and>
      gameState (snd (step s (Error ws))) = gameState s \<and>
      emitted s (Error ws) = []) \<and>
   gameState (run init_state [Fetch True, Fetch True, Error 0]) = Playing \<and>
   length (players (run init_state [Fetch True, Fetch True, Error 0])) = 1"
proof -
  have "socket_of s ws = Some a \<longrightarrow>
      fst (step s (Error ws)) = Returned \<and>
      players (snd (step s (Error ws))) = map_delete ws (players s) \<and>
      ws \<notin> fst ` set (players (snd (step s (Error ws)))) \<and>
      gameState (snd (step s (Error ws))) = gameState s \<and>
      emitted s (Error ws) = []"
    by (auto simp: emitted_def webSocketError_def close_def map_delete_def Let_def
        dest: socket_of_Some)
  moreover have "gameState (run init_state [Fetch True, Fetch True, Error 0]) = Playing"
    by (simp add: session_defs)
  moreover have "length (players (run init_state [Fetch True, Fetch True, Error 0])) = 1"
    by (simp add: session_defs)
  ultimately show ?thesis by blast
qed

theorem error_keeps_phase_witness:
  "socket_of (run init_state [Fetch True, Fetch True]) 0 =
     Some \<lparr>role = Question, submission = None, playerId = 0\<rparr> \<and>
   players (snd (step (run init_state [Fetch True, Fetch True]) (Error 0))) =
     [(1, \<lparr>role = Answer, submission = None\<rparr>)] \<and>
   gameState (snd (step (run init_state [Fetch True, Fetch True]) (Error 0))) = Playing \<and>
   emitted (run init_state [Fetch True, Fetch True]) (Error 0) = []"
proof -
  have 1: "socket_of (run init_state [Fetch True, Fetch True]) 0 =
     Some \<lparr>role = Question, submission = None, playerId = 0\<rparr>"
    by (simp add: session_defs)
  have 2: "map_delete 0 (players (run init_state [Fetch True, Fetch True])) =
     [(1, \<lparr>role = Answer, submission = None\<rparr>)]"
    by (simp add: session_defs)
  have 3: "gameState (run init_state [Fetch True, Fetch True]) = Playing"
    by (simp add: session_defs)
  from 1 2 3 error_keeps_phase [of "run init_state [Fetch True, Fetch True]" 0
      "\<lparr>role = Question, submission = None, playerId = 0\<rparr>"]
  show ?thesis by simp
qed

subsection \<open>Submissions\<close>

lemma map_of_map_set: "map_of (map_set k v m) k = Some v"
  by (induction m) auto

lemma handleSubmit_ack:
  "gameState s = Playing \<Longrightarrow>
   \<exists>rest. drop (length (outbox s)) (outbox (snd (handleSubmit a c s))) = (playerId a, Submitted) # rest"
  by (simp add: handleSubmit_def Let_def send_def broadcast_def split: option.splits)

text \<open>
  Claim C7 as the specification states it asks for an \<^verbatim>\<open>InvalidPhase\<close> error sent to the
  participant who submits outside the playing phase. The code returns at once and sends
  nothing: with one participant admitted (phase \<open>Waiting\<close>) a submit from the open socket
  returns normally, leaves the state as it was and adds no message to the log.
\<close>

theorem submit_outside_playing_counterexample:
  "gameState (run init_state [Fetch True]) = Waiting \<and>
   socket_of (run init_state [Fetch True]) 0 = Some \<lparr>role = Question, submission = None, playerId = 0\<rparr> \<and>
   step (run init_state [Fetch True]) (Message 0 (Submit ''hi'')) = (Returned, run init_state [Fetch True]) \<and>
   emitted (run init_state [Fetch True]) (Message 0 (Submit ''hi'')) = []"
  by (simp add: session_defs)

text \<open>
  Claim C7, amended. A submit that is handled while the phase is not \<open>Playing\<close> (that is
  \<open>Waiting\<close>, with zero or one participant, or \<open>Revealed\<close>) is ignored in silence: the
  handler returns normally, the whole session state is unchanged and no message, hence no
  error message, is sent.
\<close>

theorem submit_outside_playing_ignored:
  "gameState s \<noteq> Playing \<Longrightarrow>
   step s (Message ws (Submit c)) = (Returned, s) \<and> emitted s (Message ws (Submit c)) = []"
  by (simp add: emitted_def webSocketMessage_def handleSubmit_def split: option.splits)

theorem submit_outside_playing_ignored_witness:
  "gameState (run init_state [Fetch True]) \<noteq> Playing \<and>
   step (run init_state [Fetch True]) (Message 0 (Submit ''hi'')) = (Returned, run init_state [Fetch True]) \<and>
   emitted (run init_state [Fetch True]) (Message 0 (Submit ''hi'')) = []"
proof -
  have 1: "gameState (run init_state [Fetch True]) \<noteq> Playing"
    by (simp add: session_defs)
  from 1 submit_outside_playing_ignored [OF 1, of 0 "''hi''"] show ?thesis by simp
qed

text \<open>
  Claim C4 as the specification states it asks that a second submit of a participant fails
  with \<^verbatim>\<open>AlreadySubmitted\<close> and keeps the first content. The code has no such check: after
  the first participant submitted \<open>''hi''\<close>, a second submit \<open>''bye''\<close> of the same
  participant returns normally, replaces the stored submission and is acknowledged.
\<close>

theorem resubmit_counterexample:
  "players (run init_state [Fetch True, Fetch True, Message 0 (Submit ''hi'')]) =
     [(0, \<lparr>role = Question, submission = Some ''hi''\<rparr>), (1, \<lparr>role = Answer, submission = None\<rparr>)] \<and>
   fst (step (run init_state [Fetch True, Fetch True, Message 0 (Submit ''hi'')])
          (Message 0 (Submit ''bye''))) = Returned \<and>
   players (snd (step (run init_state [Fetch True, Fetch True, Message 0 (Submit ''hi'')])
          (Message 0 (Submit ''bye'')))) =
     [(0, \<lparr>role = Question, submission = Some ''bye''\<rparr>), (1, \<lparr>role = Answer, submission = None\<rparr>)] \<and>
   emitted (run init_state [Fetch True, Fetch True, Message 0 (Submit ''hi'')])
          (Message 0 (Submit ''bye'')) = [(0, Submitted)]"
  by (simp add: session_defs)

text \<open>
  Claim C4, amended. A submit from an open socket that is handled while the phase is
  \<open>Playing\<close> stores its content as the submission of that participant, whatever was stored
  before, and is acknowledged with \<^verbatim>\<open>submitted\<close>; a second submit therefore overwrites the
  first. Once the phase is \<open>Revealed\<close> a submit changes nothing.
\<close>

theorem resubmit_overwrites:
  "(socket_of s ws = Some a \<and> gameState s = Playing \<longrightarrow>
      map_of (players (snd (step s (Message ws (Submit c))))) ws =
        Some \<lparr>role = role a, submission = Some c\<rparr> \<and>
      (ws, Submitted) \<in> set (emitted s (Message ws (Submit c)))) \<and>
   (gameState s = Revealed \<longrightarrow> step s (Message ws (Submit c)) = (Returned, s))"
proof -
  have "map_of (players (snd (step s (Message ws (Submit c))))) ws =
        Some \<lparr>role = role a, submission = Some c\<rparr> \<and>
      (ws, Submitted) \<in> set (emitted s (Message ws (Submit c)))"
    if a: "socket_of s ws = Some a" and p: "gameState s = Playing"
  proof -
    from a have ws: "playerId a = ws" by (simp add: socket_of_Some)
    from handleSubmit_ack [OF p, of a c] ws a
    have "(ws, Submitted) \<in> set (emitted s (Message ws (Submit c)))"
      by (auto simp: emitted_def webSocketMessage_def)
    with a p ws show ?thesis
      by (simp add: webSocketMessage_def handleSubmit_players map_of_map_set)
  qed
  moreover have "gameState s = Revealed \<longrightarrow> step s (Message ws (Submit c)) = (Returned, s)"
    by (simp add: webSocketMessage_def handleSubmit_def split: option.splits)
  ultimately show ?thesis by blast
qed

theorem resubmit_overwrites_witness:
  "socket_of (run init_state [Fetch True, Fetch True, Message 0 (Submit ''hi'')]) 0 =
     Some \<lparr>role = Question, submission = Some ''hi'', playerId = 0\<rparr> \<and>
   gameState (run init_state [Fetch True, Fetch True, Message 0 (Submit ''hi'')]) = Playing \<and>
   map_of (players (snd (step (run init_state [Fetch True, Fetch True, Message 0 (Submit ''hi'')])
      (Message 0 (Submit ''bye''))))) 0 = Some \<lparr>role = Question, submission = Some ''bye''\<rparr> \<and>
   (0, Submitted) \<in> set (emitted (run init_state [Fetch True, Fetch True, Message 0 (Submit ''hi'')])
      (Message 0 (Submit ''bye'')))"
proof -
  have 1: "socket_of (run init_state [Fetch True, Fetch True, Message 0 (Submit ''hi'')]) 0 =
     Some \<lparr>role = Question, submission = Some ''hi'', playerId = 0\<rparr>"
    by (simp add: session_defs)
  have 2: "gameState (run init_state [Fetch True, Fetch True, Message 0 (Submit ''hi'')]) = Playing"
    by (simp add: session_defs)
  from 1 2 resubmit_overwrites [of "run init_state [Fetch True, Fetch True, Message 0 (Submit ''hi'')]" 0
      "\<lparr>role = Question, submission = Some ''hi'', playerId = 0\<rparr>" "''bye''"]
  show ?thesis by simp
qed

lemma handleSubmit_empty:
  assumes "gameState s = Playing"
  shows "handleSubmit a [] s =
     (Returned, s\<lparr>sockets := map (\<lambda>ws. if playerId ws = playerId a then a\<lparr>submission := Some []\<rparr> else ws) (sockets s),
                  players := map_set (playerId a) \<lparr>role = role a, submission = Some []\<rparr> (players s),
                  outbox := outbox s @ [(playerId a, Submitted)]\<rparr>)"
proof -
  have "(playerId a, \<lparr>role = role a, submission = Some []\<rparr>) \<in>
          set (map_set (playerId a) \<lparr>role = role a, submission = Some []\<rparr> (players s))"
    by (rule map_set_member)
  then have "\<not> list_all (\<lambda>p. truthy (submission p))
          (map snd (map_set (playerId a) \<lparr>role = role a, submission = Some []\<rparr> (players s)))"
    by (force simp: list_all_iff)
  with assms show ?thesis
    by (simp add: handleSubmit_def Let_def send_def)
qed

text \<open>
  Claim C8 as the specification states it asks that an empty or whitespace-only content is
  rejected with \<^verbatim>\<open>EmptyContent\<close> and has no effect. The code does not look at the content
  before it stores it: an empty content is recorded and acknowledged, and two
  whitespace-only contents complete a reveal.
\<close>

theorem empty_content_counterexample:
  "fst (step (run init_state [Fetch True, Fetch True]) (Message 0 (Submit ''''))) = Returned \<and>
   players (snd (step (run init_state [Fetch True, Fetch True]) (Message 0 (Submit '''')))) =
     [(0, \<lparr>role = Question, submission = Some ''''\<rparr>), (1, \<lparr>role = Answer, submission = None\<rparr>)] \<and>
   emitted (run init_state [Fetch True, Fetch True]) (Message 0 (Submit '''')) = [(0, Submitted)] \<and>
   set (emitted (run init_state [Fetch True, Fetch True, Message 0 (Submit '' '')]) (Message 1 (Submit ''  ''))) =
     {(1, Submitted), (0, Reveal (Some '' '') (Some ''  '')), (1, Reveal (Some '' '') (Some ''  ''))} \<and>
   gameState (snd (step (run init_state [Fetch True, Fetch True, Message 0 (Submit '' '')])
     (Message 1 (Submit ''  '')))) = Revealed"
  by (simp add: session_defs insert_commute)

text \<open>
  Claim C8, amended. A submit from an open socket that is handled while the phase is
  \<open>Playing\<close> is never rejected for its content: whatever the content is (empty and
  whitespace-only included) it is stored as the submission of the participant and the
  first message sent is the acknowledgement \<^verbatim>\<open>submitted\<close> to that participant. For the empty
  content the handler returns normally, the acknowledgement is the only message sent and
  the phase stays \<open>Playing\<close>, since an empty submission is falsy in the reveal check.
\<close>

theorem empty_content_recorded:
  "socket_of s ws = Some a \<and> gameState s = Playing \<longrightarrow>
     map_of (players (snd (step s (Message ws (Submit c))))) ws =
        Some \<lparr>role = role a, submission = Some c\<rparr> \<and>
     hd (emitted s (Message ws (Submit c))) = (ws, Submitted) \<and>
     fst (step s (Message ws (Submit []))) = Returned \<and>
     emitted s (Message ws (Submit [])) = [(ws, Submitted)] \<and>
     gameState (snd (step s (Message ws (Submit [])))) = Playing"
proof
  assume h0: "socket_of s ws = Some a \<and> gameState s = Playing"
  then have h: "socket_of s ws = Some a" "gameState s = Playing" by simp_all
  then have ws: "playerId a = ws" by (simp add: socket_of_Some)
  from h handleSubmit_ack [of s a c] ws
  have "hd (emitted s (Message ws (Submit c))) = (ws, Submitted)"
    by (auto simp: emitted_def webSocketMessage_def)
  moreover from h ws have "map_of (players (snd (step s (Message ws (Submit c))))) ws =
        Some \<lparr>role = role a, submission = Some c\<rparr>"
    by (simp add: webSocketMessage_def handleSubmit_players map_of_map_set)
  moreover from h ws have "fst (step s (Message ws (Submit []))) = Returned \<and>
     emitted s (Message ws (Submit [])) = [(ws, Submitted)] \<and>
     gameState (snd (step s (Message ws (Submit [])))) = Playing"
    by (simp add: emitted_def webSocketMessage_def handleSubmit_empty)
  ultimately show "map_of (players (snd (step s (Message ws (Submit c))))) ws =
        Some \<lparr>role = role a, submission = Some c\<rparr> \<and>
     hd (emitted s (Message ws (Submit c))) = (ws, Submitted) \<and>
     fst (step s (Message ws (Submit []))) = Returned \<and>
     emitted s (Message ws (Submit [])) = [(ws, Submitted)] \<and>
     gameState (snd (step s (Message ws (Submit [])))) = Playing"
    by blast
qed

theorem empty_content_recorded_witness:
  "socket_of (run init_state [Fetch True, Fetch True]) 1 =
     Some \<lparr>role = Answer, submission = None, playerId = 1\<rparr> \<and>
   gameState (run init_state [Fetch True, Fetch True]) = Playing \<and>
   map_of (players (snd (step (run init_state [Fetch True, Fetch True]) (Message 1 (Submit ''  ''))))) 1 =
     Some \<lparr>role = Answer, submission = Some ''  ''\<rparr> \<and>
   hd (emitted (run init_state [Fetch True, Fetch True]) (Message 1 (Submit ''  ''))) = (1, Submitted) \<and>
   fst (step (run init_state [Fetch True, Fetch True]) (Message 1 (Submit ''''))) = Returned \<and>
   emitted (run init_state [Fetch True, Fetch True]) (Message 1 (Submit '''')) = [(1, Submitted)] \<and>
   gameState (snd (step (run init_state [Fetch True, Fetch True]) (Message 1 (Submit '''')))) = Playing"
proof -
  have 1: "socket_of (run init_state [Fetch True, Fetch True]) 1 =
     Some \<lparr>role = Answer, submission = None, playerId = 1\<rparr>"
    by (simp add: session_defs)
  have 2: "gameState (run init_state [Fetch True, Fetch True]) = Playing"
    by (simp add: session_defs)
  from 1 2 empty_content_recorded [of "run init_state [Fetch True, Fetch True]" 1
      "\<lparr>role = Answer, submission = None, playerId = 1\<rparr>" "''  ''"]
  show ?thesis by simp
qed

subsection \<open>The phase and the number of participants\<close>





lemma fetch_players:
  assumes "attached_inv s" "length (players s) < 2"
  shows "players (snd (fetch True s)) =
     players s @ [(nextId s, \<lparr>role = (if players s = [] then Question else Answer), submission = None\<rparr>)]"
  using fresh_key [OF assms(1)] assms(2)
  by (simp add: fetch_def Let_def send_def broadcast_def map_set_fresh)


lemma fetch_rejected: "\<not> (u \<and> length (players s) < 2) \<Longrightarrow> snd (fetch u s) = s"
  by (auto simp: fetch_def)

lemma webSocketClose_players:
  "players (snd (webSocketClose a s)) = map_delete (playerId a) (players s)"
  by (simp add: webSocketClose_def Let_def close_def broadcast_def)

lemma webSocketError_players:
  "players (snd (webSocketError a s)) = map_delete (playerId a) (players s)"
  by (simp add: webSocketError_def Let_def close_def)









text \<open>
  Claim C3 as the specification states it gives the phase four values, with \<^verbatim>\<open>Ready\<close> for
  one participant, and lets it follow the participant count in every reachable state.
  \<^verbatim>\<open>gameState\<close> has three values: with one participant it is \<open>Waiting\<close>, the value it has
  with none. And after two admissions and a channel error on one socket the phase is
  \<open>Playing\<close> with one participant.
\<close>




subsection \<open>How often the reveal is sent\<close>

text \<open>
  Claim C2 asks that no run sends the reveal twice and that the reveal is sent as soon as
  both participants have submitted. \<^verbatim>\<open>webSocketClose\<close> keeps a phase \<open>Revealed\<close>, but
  \<^verbatim>\<open>fetch\<close> overwrites it: after a reveal, when the second participant closes and a new one
  is admitted, the phase is \<open>Playing\<close> again, and the submit of the new participant sends
  a second reveal, so the first participant receives two. And when both participants
  present hold the role \<open>Answer\<close> and both have submitted, no reveal is sent at all.
\<close>

theorem reveal_sent_twice:
  "gameState (run init_state
      [Fetch True, Fetch True, Message 0 (Submit ''q''), Message 1 (Submit ''a''), Close 1]) = Revealed \<and>
   gameState (run init_state
      [Fetch True, Fetch True, Message 0 (Submit ''q''), Message 1 (Submit ''a''), Close 1,
       Fetch True]) = Playing \<and>
   map snd (filter (\<lambda>e. fst e = 0) (reveals (outbox (run init_state
      [Fetch True, Fetch True, Message 0 (Submit ''q''), Message 1 (Submit ''a''), Close 1,
       Fetch True, Message 2 (Submit ''b'')])))) =
     [Reveal (Some ''q'') (Some ''a''), Reveal (Some ''q'') (Some ''b'')] \<and>
   players (run init_state
      [Fetch True, Fetch True, Close 0, Fetch True, Message 1 (Submit ''x''), Message 2 (Submit ''y'')]) =
     [(1, \<lparr>role = Answer, submission = Some ''x''\<rparr>), (2, \<lparr>role = Answer, submission = Some ''y''\<rparr>)] \<and>
   reveals (outbox (run init_state
      [Fetch True, Fetch True, Close 0, Fetch True, Message 1 (Submit ''x''), Message 2 (Submit ''y'')])) = []"
  by (simp add: session_defs reveals_def)

subsection \<open>Roles\<close>

lemma map_of_map_set_other: "k' \<noteq> k \<Longrightarrow> map_of (map_set k v m) k' = map_of m k'"
  by (induction m) auto

lemma map_of_map_delete_eq:
  "map_of (map_delete k m) k' = (if k' = k then None else map_of m k')"
  by (induction m) (auto simp: map_delete_def)

lemma map_of_map_delete: "map_of (map_delete k m) k' = Some p \<Longrightarrow> map_of m k' = Some p"
  by (simp add: map_of_map_delete_eq split: if_splits)

lemma attached_role:
  assumes inv: "attached_inv s" and a: "a \<in> set (sockets s)"
    and p: "map_of (players s) (playerId a) = Some p"
  shows "role p = role a"
proof -
  from p have "(playerId a, p) \<in> set (players s)" by (rule map_of_SomeD)
  with inv obtain b where b: "b \<in> set (sockets s)" "entry b = (playerId a, p)"
    by (auto simp: attached_inv_def)
  then have "playerId b = playerId a" by (simp add: entry_def)
  with inv a b(1) have "b = a"
    unfolding attached_inv_def by (meson distinct_map inj_onD)
  with b(2) show ?thesis by (auto simp: entry_def)
qed

lemma role_stable_step:
  assumes inv: "attached_inv s"
    and p: "map_of (players s) k = Some p"
    and p': "map_of (players (snd (step s e))) k = Some p'"
  shows "role p' = role p"
proof (cases e)
  case (Fetch u)
  show ?thesis
  proof (cases "u \<and> length (players s) < 2")
    case False
    from fetch_rejected [OF False] Fetch p p' show ?thesis by simp
  next
    case True
    from p have "k \<in> fst ` set (players s)" by (force dest: map_of_SomeD)
    with fresh_key [OF inv] have "k \<noteq> nextId s" by blast
    with True Fetch p p' inv show ?thesis
      by (simp add: fetch_players)
  qed
next
  case (Message ws m)
  show ?thesis
  proof (cases "socket_of s ws")
    case None
    with Message p p' show ?thesis by simp
  next
    case (Some a)
    then have key: "a \<in> set (sockets s)" "playerId a = ws" by (simp_all add: socket_of_Some)
    show ?thesis
    proof (cases m)
      case (Submit c)
      show ?thesis
      proof (cases "gameState s = Playing")
        case False
        with Message Some Submit p p' show ?thesis
          by (simp add: webSocketMessage_def handleSubmit_not_playing)
      next
        case True
        with Message Some Submit p' key
        have q: "map_of (map_set ws \<lparr>role = role a, submission = Some c\<rparr> (players s)) k = Some p'"
          by (simp add: webSocketMessage_def handleSubmit_players)
        show ?thesis
        proof (cases "k = ws")
          case True
          with q have "p' = \<lparr>role = role a, submission = Some c\<rparr>"
            by (simp add: map_of_map_set)
          moreover from attached_role [OF inv key(1)] key(2) True p
          have "role p = role a" by simp
          ultimately show ?thesis by simp
        next
          case False
          with q p show ?thesis by (simp add: map_of_map_set_other)
        qed
      qed
    qed (use Message Some p p' in \<open>simp_all add: webSocketMessage_def\<close>)
  qed
next
  case (Close ws)
  show ?thesis
  proof (cases "socket_of s ws")
    case None
    with Close p p' show ?thesis by simp
  next
    case (Some a)
    with Close p' have "map_of (map_delete (playerId a) (players s)) k = Some p'"
      by (simp add: webSocketClose_players)
    from map_of_map_delete [OF this] p show ?thesis by simp
  qed
next
  case (Error ws)
  show ?thesis
  proof (cases "socket_of s ws")
    case None
    with Error p p' show ?thesis by simp
  next
    case (Some a)
    with Error p' have "map_of (map_delete (playerId a) (players s)) k = Some p'"
      by (simp add: webSocketError_players)
    from map_of_map_delete [OF this] p show ?thesis by simp
  qed
next
  case Wake
  with p' show ?thesis by (simp add: constructor_def)
qed

lemma no_admission_empty:
  "Fetch True \<notin> set t \<Longrightarrow> players (run init_state t) = [] \<and> sockets (run init_state t) = []
     \<and> nextId (run init_state t) = 0 \<and> gameState (run init_state t) = Waiting"
proof (induction t rule: rev_induct)
  case Nil
  then show ?case by (simp add: init_state_def)
next
  case (snoc e t)
  then have ih: "players (run init_state t) = []" "sockets (run init_state t) = []"
    "nextId (run init_state t) = 0" "gameState (run init_state t) = Waiting"
    and e: "e \<noteq> Fetch True" by auto
  show ?case
  proof (cases e)
    case (Fetch u)
    with e ih show ?thesis by (simp add: run_append fetch_def)
  qed (use ih in \<open>simp_all add: run_append socket_of_def constructor_def\<close>)
qed

lemma fetch_emitted:
  assumes "attached_inv s" "length (players s) < 2"
  shows "emitted s (Fetch True) =
     (nextId s, Joined (nextId s) (if players s = [] then Question else Answer)
        (Suc (length (players s))) (if length (players s) = 1 then Playing else gameState s)) #
     map (\<lambda>k. (k, State (Suc (length (players s))) (if length (players s) = 1 then Playing else gameState s)))
       (nextId s # rev (map playerId (sockets s)))"
  using fresh_key [OF assms(1)] assms(2)
  by (simp add: emitted_def fetch_def Let_def send_def broadcast_def map_set_fresh rev_map)

text \<open>
  Claim C9 as the specification states it gives the second admitted participant of every
  session the role of the responder. \<^verbatim>\<open>fetch\<close> chooses the role from the number of
  participants present: when the first participant has closed before the second upgrade
  request, the second participant is admitted into an empty map and is told the role
  \<open>Question\<close>.
\<close>

theorem role_by_position_counterexample:
  "players (run init_state [Fetch True, Close 0]) = [] \<and>
   emitted (run init_state [Fetch True, Close 0]) (Fetch True) =
     [(1, Joined 1 Question 1 Waiting), (1, State 1 Waiting)] \<and>
   players (run init_state [Fetch True, Close 0, Fetch True]) =
     [(1, \<lparr>role = Question, submission = None\<rparr>)]"
  by (simp add: session_defs)

text \<open>
  Claim C9, amended. The role is fixed by the participants present at admission. The first
  admission of a session (the upgrade request of a run that had none before) gets the id 0
  and the role \<open>Question\<close>. In every reachable state an admission into an empty map gets
  the role \<open>Question\<close>, and an admission while one participant with the role \<open>Question\<close>
  is present gets the role \<open>Answer\<close>; the new participant is told its role in the
  \<^verbatim>\<open>joined\<close> message, the first message the request sends. And no event changes the role
  of a participant who is in the map before and after it.
\<close>

theorem role_by_position:
  "(Fetch True \<notin> set t \<longrightarrow>
      players (snd (step (run init_state t) (Fetch True))) = [(0, \<lparr>role = Question, submission = None\<rparr>)] \<and>
      hd (emitted (run init_state t) (Fetch True)) = (0, Joined 0 Question 1 Waiting)) \<and>
   (players (run init_state t) = [] \<longrightarrow>
      players (snd (step (run init_state t) (Fetch True))) =
        [(nextId (run init_state t), \<lparr>role = Question, submission = None\<rparr>)] \<and>
      (\<exists>n g. hd (emitted (run init_state t) (Fetch True)) =
        (nextId (run init_state t), Joined (nextId (run init_state t)) Question n g))) \<and>
   (length (players (run init_state t)) = 1 \<and>
    list_ex (\<lambda>pl. role (snd pl) = Question) (players (run init_state t)) \<longrightarrow>
      players (snd (step (run init_state t) (Fetch True))) =
        players (run init_state t) @ [(nextId (run init_state t), \<lparr>role = Answer, submission = None\<rparr>)] \<and>
      hd (emitted (run init_state t) (Fetch True)) =
        (nextId (run init_state t), Joined (nextId (run init_state t)) Answer 2 Playing)) \<and>
   (map_of (players (run init_state t)) k = Some p \<and>
    map_of (players (snd (step (run init_state t) e))) k = Some p' \<longrightarrow> role p' = role p)"
proof (intro conjI impI)
  let ?s = "run init_state t"
  have inv: "attached_inv ?s" by (rule attached_reachable)
  {
    assume "Fetch True \<notin> set t"
    note z = no_admission_empty [OF this]
    from z inv show "players (snd (step ?s (Fetch True))) = [(0, \<lparr>role = Question, submission = None\<rparr>)]"
      by (simp add: fetch_players)
    from z inv show "hd (emitted ?s (Fetch True)) = (0, Joined 0 Question 1 Waiting)"
      by (simp add: fetch_emitted)
  }
  {
    assume e: "players ?s = []"
    with inv show "players (snd (step ?s (Fetch True))) = [(nextId ?s, \<lparr>role = Question, submission = None\<rparr>)]"
      by (simp add: fetch_players)
    from e inv show "\<exists>n g. hd (emitted ?s (Fetch True)) = (nextId ?s, Joined (nextId ?s) Question n g)"
      by (simp add: fetch_emitted)
  }
  {
    assume h: "length (players ?s) = 1 \<and> list_ex (\<lambda>pl. role (snd pl) = Question) (players ?s)"
    then have ne: "players ?s \<noteq> []" by auto
    with h inv show "players (snd (step ?s (Fetch True))) =
        players ?s @ [(nextId ?s, \<lparr>role = Answer, submission = None\<rparr>)]"
      by (simp add: fetch_players)
    from h ne inv show "hd (emitted ?s (Fetch True)) = (nextId ?s, Joined (nextId ?s) Answer 2 Playing)"
      by (simp add: fetch_emitted)
  }
  {
    assume "map_of (players ?s) k = Some p \<and> map_of (players (snd (step ?s e))) k = Some p'"
    then show "role p' = role p"
      using role_stable_step [OF inv, of k p e p'] by blast
  }
qed


theorem role_by_position_witness:
  "Fetch True \<notin> set ([] :: event list) \<and>
   players (snd (step (run init_state []) (Fetch True))) =
     [(0, \<lparr>role = Question, submission = None\<rparr>)] \<and>
   length (players (run init_state [Fetch True])) = 1 \<and>
   list_ex (\<lambda>pl. role (snd pl) = Question) (players (run init_state [Fetch True])) \<and>
   players (snd (step (run init_state [Fetch True]) (Fetch True))) =
     [(0, \<lparr>role = Question, submission = None\<rparr>), (1, \<lparr>role = Answer, submission = None\<rparr>)] \<and>
   hd (emitted (run init_state [Fetch True]) (Fetch True)) = (1, Joined 1 Answer 2 Playing) \<and>
   map_of (players (run init_state [Fetch True, Fetch True])) 0 =
     Some \<lparr>role = Question, submission = None\<rparr> \<and>
   map_of (players (snd (step (run init_state [Fetch True, Fetch True]) (Message 0 (Submit ''q''))))) 0 =
     Some \<lparr>role = Question, submission = Some ''q''\<rparr>"
proof -
  have 1: "Fetch True \<notin> set ([] :: event list)" by simp
  have 2: "players (run init_state [Fetch True]) = [(0, \<lparr>role = Question, submission = None\<rparr>)]"
    by (simp add: session_defs)
  have 3: "nextId (run init_state [Fetch True]) = 1"
    by (simp add: session_defs)
  have 4: "map_of (players (run init_state [Fetch True, Fetch True])) 0 =
     Some \<lparr>role = Question, submission = None\<rparr>"
    by (simp add: session_defs)
  have 5: "map_of (players (snd (step (run init_state [Fetch True, Fetch True]) (Message 0 (Submit ''q''))))) 0 =
     Some \<lparr>role = Question, submission = Some ''q''\<rparr>"
    by (simp add: session_defs)
  from 1 role_by_position [of "[]"]
  have a: "players (snd (step (run init_state []) (Fetch True))) =
     [(0, \<lparr>role = Question, submission = None\<rparr>)]"
    by blast
  from 2 3 role_by_position [of "[Fetch True]"]
  have b: "players (snd (step (run init_state [Fetch True]) (Fetch True))) =
     [(0, \<lparr>role = Question, submission = None\<rparr>), (1, \<lparr>role = Answer, submission = None\<rparr>)] \<and>
     hd (emitted (run init_state [Fetch True]) (Fetch True)) = (1, Joined 1 Answer 2 Playing)"
    by simp
  from 4 5 role_by_position [of "[Fetch True, Fetch True]" 0 "\<lparr>role = Question, submission = None\<rparr>"
      "Message 0 (Submit ''q'')" "\<lparr>role = Question, submission = Some ''q''\<rparr>"]
  have c: "role \<lparr>role = Question, submission = Some ''q''\<rparr> = role \<lparr>role = Question, submission = None\<rparr>"
    by blast
  from 1 2 4 5 a b c show ?thesis by simp
qed

lemma one_question_without_wake:
  "Wake \<notin> set t \<Longrightarrow>
   length (filter (\<lambda>pl. role (snd pl) = Question) (players (run init_state t))) \<le> 1"
  using inv_reachable [of t] by (simp add: session_inv_def filter_map o_def)

text \<open>
  Claim C5 asks for at most one participant per role in every reachable state. When the
  participant with the role \<open>Question\<close> closes and a new participant is admitted, the map
  holds two participants with the role \<open>Answer\<close>. The reveal of \<^verbatim>\<open>handleSubmit\<close> relies on
  one participant per role: once both have submitted it finds no \<open>Question\<close> participant
  and throws a \<^verbatim>\<open>TypeError\<close>, with the phase already \<open>Revealed\<close> and no reveal sent.
\<close>

theorem two_answer_roles:
  "players (run init_state [Fetch True, Fetch True, Close 0, Fetch True]) =
     [(1, \<lparr>role = Answer, submission = None\<rparr>), (2, \<lparr>role = Answer, submission = None\<rparr>)] \<and>
   gameState (run init_state [Fetch True, Fetch True, Close 0, Fetch True]) = Playing \<and>
   step (run init_state [Fetch True, Fetch True, Close 0, Fetch True, Message 1 (Submit ''x'')])
     (Message 2 (Submit ''y'')) =
     (Threw TypeError,
      run init_state [Fetch True, Fetch True, Close 0, Fetch True, Message 1 (Submit ''x'')]
        \<lparr>players := [(1, \<lparr>role = Answer, submission = Some ''x''\<rparr>),
                      (2, \<lparr>role = Answer, submission = Some ''y''\<rparr>)],
          sockets := [\<lparr>role = Answer, submission = Some ''x'', playerId = 1\<rparr>,
                      \<lparr>role = Answer, submission = Some ''y'', playerId = 2\<rparr>],
          gameState := Revealed,
          outbox := outbox (run init_state
             [Fetch True, Fetch True, Close 0, Fetch True, Message 1 (Submit ''x'')]) @ [(2, Submitted)]\<rparr>)"
  by (simp add: session_defs)

end
